theory Spec2Isabelle
  imports Complex_Main "HOL-Library.Char_ord" "HOL-Library.List_Lexorder" "HOL-Library.Multiset"
begin

section \<open>Python values and failures\<close>

text \<open>
  The notebook \<^verbatim>\<open>Evaluation_OFFdata.ipynb\<close> cleans tokens and scores detections.
  A Python \<^verbatim>\<open>str\<close> is modelled as a \<^typ>\<open>string\<close>: a list of characters whose
  code points lie in 0..255. Every exception a modelled function can raise is a value of
  \<open>py_error\<close>, returned as \<open>Inl\<close>.
\<close>

datatype py_error = IndexError | ZeroDivisionError | TypeError

text \<open>\<^verbatim>\<open>xs[i]\<close> on a list: a negative index counts from the end, an index out of range raises.\<close>

definition py_index :: "'a list \<Rightarrow> int \<Rightarrow> py_error + 'a" where
  "py_index xs i =
     (if 0 \<le> i \<and> i < int (length xs) then Inr (xs ! nat i)
      else if i < 0 \<and> - int (length xs) \<le> i then Inr (xs ! nat (int (length xs) + i))
      else Inl IndexError)"

section \<open>Characters and the library functions on strings\<close>

text \<open>The character class \<^verbatim>\<open>[a-zA-Z]\<close>.\<close>

definition ascii_letter :: "char \<Rightarrow> bool" where
  "ascii_letter c \<longleftrightarrow>
     (CHR ''a'' \<le> c \<and> c \<le> CHR ''z'') \<or> (CHR ''A'' \<le> c \<and> c \<le> CHR ''Z'')"

text \<open>The character class \<^verbatim>\<open>[0-9]\<close>.\<close>

definition ascii_digit :: "char \<Rightarrow> bool" where
  "ascii_digit c \<longleftrightarrow> CHR ''0'' \<le> c \<and> c \<le> CHR ''9''"

text \<open>
  \<^verbatim>\<open>str.isspace\<close> on one character, which \<^verbatim>\<open>strip()\<close> and \<^verbatim>\<open>split()\<close> use: the code
  points 9..13, 28..32, 133 and 160.
\<close>

definition py_isspace :: "char \<Rightarrow> bool" where
  "py_isspace c \<longleftrightarrow>
     (let n = (of_char c :: nat)
      in (9 \<le> n \<and> n \<le> 13) \<or> (28 \<le> n \<and> n \<le> 32) \<or> n = 133 \<or> n = 160)"

text \<open>
  \<^verbatim>\<open>str.lower\<close> on one character: \<^verbatim>\<open>A\<close>..\<^verbatim>\<open>Z\<close> and the capital letters of the range
  192..222 (all but the multiplication sign 215) move up by 32, every other character stays.
\<close>

definition lower_char :: "char \<Rightarrow> char" where
  "lower_char c =
     (let n = (of_char c :: nat)
      in if (65 \<le> n \<and> n \<le> 90) \<or> (192 \<le> n \<and> n \<le> 222 \<and> n \<noteq> 215)
         then char_of (n + 32) else c)"

definition lower :: "string \<Rightarrow> string" where
  "lower s = map lower_char s"

text \<open>\<^verbatim>\<open>str.strip()\<close>: leading and trailing white space removed.\<close>

definition strip :: "string \<Rightarrow> string" where
  "strip s = rev (dropWhile py_isspace (rev (dropWhile py_isspace s)))"

text \<open>
  \<^verbatim>\<open>re.sub('[cls]+', repl, s)\<close>: scanning from the left, every maximal run of characters of
  the class is replaced by \<open>repl\<close>.
\<close>

function re_sub_plus :: "(char \<Rightarrow> bool) \<Rightarrow> string \<Rightarrow> string \<Rightarrow> string" where
  "re_sub_plus cls repl [] = []"
| "re_sub_plus cls repl (c # cs) =
     (if cls c then repl @ re_sub_plus cls repl (dropWhile cls cs)
      else c # re_sub_plus cls repl cs)"
  by pat_completeness auto
termination
  by (relation "measure (\<lambda>(cls, repl, s). length s)")
     (auto simp: le_imp_less_Suc length_dropWhile_le)

text \<open>\<^verbatim>\<open>re.sub('[cls]', repl, s)\<close>: every single character of the class is replaced.\<close>

fun re_sub_one :: "(char \<Rightarrow> bool) \<Rightarrow> string \<Rightarrow> string \<Rightarrow> string" where
  "re_sub_one cls repl [] = []"
| "re_sub_one cls repl (c # cs) =
     (if cls c then repl @ re_sub_one cls repl cs else c # re_sub_one cls repl cs)"

text \<open>
  \<^verbatim>\<open>str.split()\<close> without argument: the maximal runs of characters that are not white
  space, in order. \<open>cur\<close> is the token being read.
\<close>

fun split_ws_from :: "string \<Rightarrow> string \<Rightarrow> string list" where
  "split_ws_from cur [] = (if cur = [] then [] else [cur])"
| "split_ws_from cur (c # cs) =
     (if py_isspace c
      then (if cur = [] then split_ws_from [] cs else cur # split_ws_from [] cs)
      else split_ws_from (cur @ [c]) cs)"

definition split_ws :: "string \<Rightarrow> string list" where
  "split_ws s = split_ws_from [] s"

text \<open>\<^verbatim>\<open>s.split(",")\<close>: the pieces between the separators, empty pieces kept.\<close>

fun split_on_from :: "char \<Rightarrow> string \<Rightarrow> string \<Rightarrow> string list" where
  "split_on_from d cur [] = [cur]"
| "split_on_from d cur (c # cs) =
     (if c = d then cur # split_on_from d [] cs else split_on_from d (cur @ [c]) cs)"

definition split_on :: "char \<Rightarrow> string \<Rightarrow> string list" where
  "split_on d s = split_on_from d [] s"

text \<open>
  \<^verbatim>\<open>string.punctuation\<close>, the 32 characters
  \<^verbatim>\<open>!"#$%&'()*+,-./:;<=>?@[\]^_`{|}~\<close>.
\<close>

definition string_punctuation :: string where
  "string_punctuation =
     [CHR 0x21, CHR 0x22, CHR 0x23, CHR 0x24, CHR 0x25, CHR 0x26, CHR 0x27, CHR 0x28,
      CHR 0x29, CHR 0x2A, CHR 0x2B, CHR 0x2C, CHR 0x2D, CHR 0x2E, CHR 0x2F, CHR 0x3A,
      CHR 0x3B, CHR 0x3C, CHR 0x3D, CHR 0x3E, CHR 0x3F, CHR 0x40, CHR 0x5B, CHR 0x5C,
      CHR 0x5D, CHR 0x5E, CHR 0x5F, CHR 0x60, CHR 0x7B, CHR 0x7C, CHR 0x7D, CHR 0x7E]"

text \<open>
  The character class of the pattern \<^verbatim>\<open>'[' + string.punctuation + ']'\<close>, read as the
  regular-expression parser reads it. Between the brackets, \<^verbatim>\<open>,-.\<close> is the range from the
  comma to the full stop, and the backslash of \<^verbatim>\<open>string.punctuation\<close> escapes the
  \<^verbatim>\<open>]\<close> that follows it: \<^verbatim>\<open>\]\<close> is the member \<^verbatim>\<open>]\<close>, and the backslash itself is
  no member. Every other character stands for itself.
\<close>

definition punctuation_class :: "char \<Rightarrow> bool" where
  "punctuation_class c \<longleftrightarrow>
     c \<in> set [CHR 0x21, CHR 0x22, CHR 0x23, CHR 0x24, CHR 0x25, CHR 0x26, CHR 0x27,
              CHR 0x28, CHR 0x29, CHR 0x2A, CHR 0x2B]
     \<or> (CHR 0x2C \<le> c \<and> c \<le> CHR 0x2E)
     \<or> c \<in> set [CHR 0x2F, CHR 0x3A, CHR 0x3B, CHR 0x3C, CHR 0x3D, CHR 0x3E, CHR 0x3F,
                CHR 0x40, CHR 0x5B]
     \<or> c = CHR 0x5D
     \<or> c \<in> set [CHR 0x5E, CHR 0x5F, CHR 0x60, CHR 0x7B, CHR 0x7C, CHR 0x7D, CHR 0x7E]"

section \<open>Cleaning tokens\<close>

text \<open>
  \<^verbatim>\<open>
  def clean_word(word):
      c_word = word.lower().strip()
      c_word = re.sub('[^a-zA-Z]+', '', c_word)
      if len(c_word) < 2:
          c_word = ""
      return c_word
  \<close>
\<close>

definition clean_word :: "string \<Rightarrow> string" where
  "clean_word word =
     (let c_word = strip (lower word);
          c_word = re_sub_plus (\<lambda>c. \<not> ascii_letter c) [] c_word
      in if length c_word < 2 then [] else c_word)"

text \<open>
  The argument \<^verbatim>\<open>text\<close> of \<^verbatim>\<open>clean_text\<close> is a string (the ingredient text of the data
  set) or a list of strings (the words an OCR engine returned).
\<close>

datatype py_text = Str string | StrList "string list"

text \<open>
  \<^verbatim>\<open>sorted(list(filter(None, set(c_text))))\<close>: the set of the tokens, the empty string
  filtered out, listed in ascending order. A Python set has no order of its own; the list
  handed to \<^verbatim>\<open>sorted\<close> holds each member once.
\<close>

definition unique_sorted :: "string list \<Rightarrow> string list" where
  "unique_sorted c_text = sorted_list_of_set (Set.filter (\<lambda>w. w \<noteq> []) (set c_text))"

text \<open>
  \<^verbatim>\<open>
  def clean_text(text, split=True):
      if split == False:
          c_text = [clean_word(w) for w in text]
      else:
          c_text = re.sub('[0-9]', ' ', text)
          c_text = re.sub('['+string.punctuation+']', ' ', c_text)
          c_text = [clean_word(w) for w in c_text.split()]
      c_text = sorted(list(filter(None, set(c_text))))
      return c_text
  \<close>
  Iterating over a string gives its characters as strings of length one; \<^verbatim>\<open>re.sub\<close> on a
  list raises \<^verbatim>\<open>TypeError\<close>.
\<close>

definition clean_text :: "py_text \<Rightarrow> bool \<Rightarrow> py_error + string list" where
  "clean_text text split =
     (if split = False then
        (case text of
           StrList ws \<Rightarrow> Inr (unique_sorted (map clean_word ws))
         | Str s \<Rightarrow> Inr (unique_sorted (map (\<lambda>c. clean_word [c]) s)))
      else
        (case text of
           Str s \<Rightarrow>
             (let c_text = re_sub_one ascii_digit '' '' s;
                  c_text = re_sub_one punctuation_class '' '' c_text
              in Inr (unique_sorted (map clean_word (split_ws c_text))))
         | StrList ws \<Rightarrow> Inl TypeError))"

text \<open>
  The cleaning in the words of the specification. A word is lowercased, every character
  that is not an ASCII letter is removed, and a result of fewer than 2 characters is
  replaced by the empty string.
\<close>

definition clean_word_spec :: "string \<Rightarrow> string" where
  "clean_word_spec w =
     (let kept = filter ascii_letter (lower w)
      in if length kept < 2 then [] else kept)"

text \<open>The lowercase ASCII letters.\<close>

definition lowercase_letter :: "char \<Rightarrow> bool" where
  "lowercase_letter c \<longleftrightarrow> CHR ''a'' \<le> c \<and> c \<le> CHR ''z''"

text \<open>
  A text with every digit and every punctuation character replaced by a space, and the
  ascending-sorted list of the distinct non-empty strings of a list.
\<close>

definition spaced_spec :: "string \<Rightarrow> string" where
  "spaced_spec text =
     map (\<lambda>c. if ascii_digit c \<or> c \<in> set string_punctuation then CHR '' '' else c) text"

definition distinct_sorted_spec :: "string list \<Rightarrow> string list" where
  "distinct_sorted_spec ws = sort (remdups (filter (\<lambda>w. w \<noteq> []) ws))"

definition clean_text_split_spec :: "string \<Rightarrow> string list" where
  "clean_text_split_spec text =
     distinct_sorted_spec (map clean_word (split_ws (spaced_spec text)))"

definition clean_text_list_spec :: "string list \<Rightarrow> string list" where
  "clean_text_list_spec ws = distinct_sorted_spec (map clean_word ws)"

section \<open>Precision, recall and F1 score\<close>

text \<open>
  The scores are numbers: the integer \<^verbatim>\<open>0\<close> of the early returns and the quotient
  \<^verbatim>\<open>tp/p\<close> of two lengths. In this section a number is a rational and every operation
  is exact; a division by zero raises. This is the arithmetic for the properties that
  rounding does not change: which calls raise, which results are 0, the bounds 0 and 1.
  The values that the floats of the program take are the subject of the next section.
\<close>

definition py_truediv :: "rat \<Rightarrow> rat \<Rightarrow> py_error + rat" where
  "py_truediv a b = (if b = 0 then Inl ZeroDivisionError else Inr (a / b))"

text \<open>\<^verbatim>\<open>sum([dw in actual_ingredients for dw in detected_words])\<close>: each \<^verbatim>\<open>True\<close> counts 1.\<close>

definition true_positives :: "string list \<Rightarrow> string list \<Rightarrow> nat" where
  "true_positives detected_words actual_ingredients =
     sum_list (map (\<lambda>dw. if dw \<in> set actual_ingredients then 1 else 0) detected_words)"

text \<open>
  \<^verbatim>\<open>
  def precision(ing_lst, i, ingredients):
      detected_words = ing_lst[i]
      actual_ingredients = ingredients[i]
      if len(detected_words) == 0:
          return 0
      else:
          tp = sum([dw in actual_ingredients for dw in detected_words])
          p = len(detected_words)
          return tp/p
  \<close>
\<close>

definition precision :: "string list list \<Rightarrow> int \<Rightarrow> string list list \<Rightarrow> py_error + rat" where
  "precision ing_lst i ingredients =
     (case py_index ing_lst i of
        Inl e \<Rightarrow> Inl e
      | Inr detected_words \<Rightarrow>
          (case py_index ingredients i of
             Inl e \<Rightarrow> Inl e
           | Inr actual_ingredients \<Rightarrow>
               if length detected_words = 0 then Inr 0
               else
                 (let tp = true_positives detected_words actual_ingredients;
                      p = length detected_words
                  in py_truediv (of_nat tp) (of_nat p))))"

text \<open>
  \<^verbatim>\<open>
  def recall(ing_lst, i, ingredients):
      detected_words = ing_lst[i]
      actual_ingredients = ingredients[i]
      if len(detected_words) == 0:
          return 0
      else:
          tp = sum([dw in actual_ingredients for dw in detected_words])
          a = len(actual_ingredients)
          return tp/a
  \<close>
\<close>

definition recall :: "string list list \<Rightarrow> int \<Rightarrow> string list list \<Rightarrow> py_error + rat" where
  "recall ing_lst i ingredients =
     (case py_index ing_lst i of
        Inl e \<Rightarrow> Inl e
      | Inr detected_words \<Rightarrow>
          (case py_index ingredients i of
             Inl e \<Rightarrow> Inl e
           | Inr actual_ingredients \<Rightarrow>
               if length detected_words = 0 then Inr 0
               else
                 (let tp = true_positives detected_words actual_ingredients;
                      a = length actual_ingredients
                  in py_truediv (of_nat tp) (of_nat a))))"

text \<open>
  \<^verbatim>\<open>
  def F1score(ing_lst, i, ingredients):
      p = precision(ing_lst, i, ingredients)
      r = recall(ing_lst, i, ingredients)
      if p==0 and r==0:
          return 0
      return (2*p*r)/(p+r)
  \<close>
\<close>

definition F1score :: "string list list \<Rightarrow> int \<Rightarrow> string list list \<Rightarrow> py_error + rat" where
  "F1score ing_lst i ingredients =
     (case precision ing_lst i ingredients of
        Inl e \<Rightarrow> Inl e
      | Inr p \<Rightarrow>
          (case recall ing_lst i ingredients of
             Inl e \<Rightarrow> Inl e
           | Inr r \<Rightarrow>
               if p = 0 \<and> r = 0 then Inr 0
               else py_truediv (2 * p * r) (p + r)))"

text \<open>
  The two quotients in the words of the specification, on a detected list and an actual list:
  the count of detected tokens that occur in the actual list, divided by the number of
  detected tokens, or by the number of actual tokens; 0 when no token was detected.
\<close>

definition hit_count_spec :: "string list \<Rightarrow> string list \<Rightarrow> nat" where
  "hit_count_spec detected actual = length (filter (\<lambda>dw. dw \<in> set actual) detected)"

definition precision_spec :: "string list \<Rightarrow> string list \<Rightarrow> rat" where
  "precision_spec detected actual =
     (if detected = [] then 0
      else of_nat (hit_count_spec detected actual) / of_nat (length detected))"

definition recall_spec :: "string list \<Rightarrow> string list \<Rightarrow> rat" where
  "recall_spec detected actual =
     (if detected = [] then 0
      else of_nat (hit_count_spec detected actual) / of_nat (length actual))"


section \<open>The scores in floating-point arithmetic\<close>

text \<open>
  Python's \<^verbatim>\<open>/\<close> on two integers, and \<^verbatim>\<open>*\<close>, \<^verbatim>\<open>+\<close> and \<^verbatim>\<open>/\<close> on floats, return the
  double nearest to the exact result. Here the three scores are given with that rounding
  written out. A number is the rational it stands for, and \<open>rnd\<close> maps an exact result
  to the double it is rounded to. Rounding to nearest is monotone, maps 0 to 0 and leaves
  a double as it is: \<open>rounding\<close> says this of \<open>rnd\<close>, and the theorems use nothing else
  of it.
\<close>

definition rounding :: "(rat \<Rightarrow> rat) \<Rightarrow> bool" where
  "rounding rnd \<longleftrightarrow> mono rnd \<and> rnd 0 = 0 \<and> (\<forall>x. rnd (rnd x) = rnd x)"

text \<open>\<^verbatim>\<open>a / b\<close>: the rounded quotient; a division by zero raises.\<close>

definition float_truediv :: "(rat \<Rightarrow> rat) \<Rightarrow> rat \<Rightarrow> rat \<Rightarrow> py_error + rat" where
  "float_truediv rnd a b = (if b = 0 then Inl ZeroDivisionError else Inr (rnd (a / b)))"

text \<open>\<^verbatim>\<open>precision\<close> and \<^verbatim>\<open>recall\<close>, statement by statement as above, with the rounded quotient.\<close>

definition precision_fl ::
  "(rat \<Rightarrow> rat) \<Rightarrow> string list list \<Rightarrow> int \<Rightarrow> string list list \<Rightarrow> py_error + rat" where
  "precision_fl rnd ing_lst i ingredients =
     (case py_index ing_lst i of
        Inl e \<Rightarrow> Inl e
      | Inr detected_words \<Rightarrow>
          (case py_index ingredients i of
             Inl e \<Rightarrow> Inl e
           | Inr actual_ingredients \<Rightarrow>
               if length detected_words = 0 then Inr 0
               else
                 (let tp = true_positives detected_words actual_ingredients;
                      p = length detected_words
                  in float_truediv rnd (of_nat tp) (of_nat p))))"

definition recall_fl ::
  "(rat \<Rightarrow> rat) \<Rightarrow> string list list \<Rightarrow> int \<Rightarrow> string list list \<Rightarrow> py_error + rat" where
  "recall_fl rnd ing_lst i ingredients =
     (case py_index ing_lst i of
        Inl e \<Rightarrow> Inl e
      | Inr detected_words \<Rightarrow>
          (case py_index ingredients i of
             Inl e \<Rightarrow> Inl e
           | Inr actual_ingredients \<Rightarrow>
               if length detected_words = 0 then Inr 0
               else
                 (let tp = true_positives detected_words actual_ingredients;
                      a = length actual_ingredients
                  in float_truediv rnd (of_nat tp) (of_nat a))))"

text \<open>
  \<^verbatim>\<open>F1score\<close>: in \<^verbatim>\<open>(2*p*r)/(p+r)\<close> the two products, the sum and the quotient each round.
\<close>

definition F1score_fl ::
  "(rat \<Rightarrow> rat) \<Rightarrow> string list list \<Rightarrow> int \<Rightarrow> string list list \<Rightarrow> py_error + rat" where
  "F1score_fl rnd ing_lst i ingredients =
     (case precision_fl rnd ing_lst i ingredients of
        Inl e \<Rightarrow> Inl e
      | Inr p \<Rightarrow>
          (case recall_fl rnd ing_lst i ingredients of
             Inl e \<Rightarrow> Inl e
           | Inr r \<Rightarrow>
               if p = 0 \<and> r = 0 then Inr 0
               else float_truediv rnd (rnd (rnd (2 * p) * r)) (rnd (p + r))))"

text \<open>
  The quotients and the formula in the words of the specification, in the same arithmetic.
\<close>

definition precision_fl_spec :: "(rat \<Rightarrow> rat) \<Rightarrow> string list \<Rightarrow> string list \<Rightarrow> rat" where
  "precision_fl_spec rnd detected actual =
     (if detected = [] then 0
      else rnd (of_nat (hit_count_spec detected actual) / of_nat (length detected)))"

definition recall_fl_spec :: "(rat \<Rightarrow> rat) \<Rightarrow> string list \<Rightarrow> string list \<Rightarrow> rat" where
  "recall_fl_spec rnd detected actual =
     (if detected = [] then 0
      else rnd (of_nat (hit_count_spec detected actual) / of_nat (length actual)))"

definition F1_fl_spec :: "(rat \<Rightarrow> rat) \<Rightarrow> rat \<Rightarrow> rat \<Rightarrow> rat" where
  "F1_fl_spec rnd p r =
     (if p = 0 \<and> r = 0 then 0 else rnd (rnd (rnd (2 * p) * r) / rnd (p + r)))"

text \<open>
  A rounding for the example: to the nearest multiple of \<open>1/1024\<close>, a half rounded up.
\<close>

definition round_1024 :: "rat \<Rightarrow> rat" where
  "round_1024 x = of_int \<lfloor>x * 1024 + 1 / 2\<rfloor> / 1024"

section \<open>The 210 best detections\<close>

text \<open>
  \<^verbatim>\<open>[xs[i] for i in inds]\<close>: the elements at the given indices, in the order of the indices;
  the first index out of range raises.
\<close>

fun py_gather :: "'a list \<Rightarrow> nat list \<Rightarrow> py_error + 'a list" where
  "py_gather xs [] = Inr []"
| "py_gather xs (i # inds) =
     (case py_index xs (int i) of
        Inl e \<Rightarrow> Inl e
      | Inr x \<Rightarrow> (case py_gather xs inds of Inl e \<Rightarrow> Inl e | Inr ys \<Rightarrow> Inr (x # ys)))"

text \<open>
  \<^verbatim>\<open>numpy.argsort\<close> is the library's; its default sort is not stable. What it returns for
  a vector \<open>v\<close> is a permutation of the indices of \<open>v\<close> along which \<open>v\<close> is
  ascending. The function is a parameter of \<open>top210\<close>, and \<open>is_argsort\<close> says that one
  result of it is such a permutation.
\<close>

definition is_argsort :: "rat list \<Rightarrow> nat list \<Rightarrow> bool" where
  "is_argsort v inds \<longleftrightarrow>
     mset inds = mset [0..<length v] \<and> sorted (map (\<lambda>i. v ! i) inds)"

text \<open>
  \<^verbatim>\<open>
  def top210(scores):
      s = np.array([scores])
      inds = (-s).argsort()[0][:210]
      imgs210 = [imgs[i] for i in list(inds)]
      print(len(imgs210))
      a_ings = [ingredients[i] for i in list(inds)]
      print(len(a_ings))
      print("Average top F1-score:", sum([scores[i] for i in list(inds)])/210)
      return [imgs210, a_ings]
  \<close>
  The globals \<^verbatim>\<open>imgs\<close> and \<^verbatim>\<open>ingredients\<close> are arguments here, and the three printed
  lines are left out; \<^verbatim>\<open>scores[i]\<close> of the last one is evaluated, since it can raise.
\<close>

definition top210 ::
  "(rat list \<Rightarrow> nat list) \<Rightarrow> 'img list \<Rightarrow> string list list \<Rightarrow> rat list
     \<Rightarrow> py_error + ('img list \<times> string list list)" where
  "top210 argsort imgs ingredients scores =
     (let s = scores;
          inds = take 210 (argsort (map uminus s))
      in case py_gather imgs inds of
           Inl e \<Rightarrow> Inl e
         | Inr imgs210 \<Rightarrow>
             (case py_gather ingredients inds of
                Inl e \<Rightarrow> Inl e
              | Inr a_ings \<Rightarrow>
                  (case py_gather scores inds of
                     Inl e \<Rightarrow> Inl e
                   | Inr top_scores \<Rightarrow> Inr (imgs210, a_ings))))"

section \<open>The CSV cache of the detections\<close>

text \<open>
  \<^verbatim>\<open>
  pyt_output = pd.DataFrame({'detected':pyt_ingredients})
  pyt_output.to_csv('pyt_output.csv', index=False)
  ...
  pyt_data = pd.read_csv('pyt_output.csv')
  pyt_ingredients = [[re.sub('[^a-zA-Z]+', '', e) for e in l.split(",")] for l in pyt_data.detected]
  \<close>
  A cell of the column holds a list; the file stores \<^verbatim>\<open>str\<close> of it: the \<^verbatim>\<open>repr\<close> of
  its strings, separated by a comma and a space, between brackets. \<open>py_repr\<close> is
  \<^verbatim>\<open>repr\<close> on a string of letters, which every cleaned token is: the string between single
  quotes.
\<close>

definition py_repr :: "string \<Rightarrow> string" where
  "py_repr s = [CHR 0x27] @ s @ [CHR 0x27]"

fun join_comma_space :: "string list \<Rightarrow> string" where
  "join_comma_space [] = []"
| "join_comma_space [x] = x"
| "join_comma_space (x # y # ys) = x @ '', '' @ join_comma_space (y # ys)"

definition py_str_list :: "string list \<Rightarrow> string" where
  "py_str_list xs = ''['' @ join_comma_space (map py_repr xs) @ '']''"

text \<open>
  The file, line by line: the header, then one field a row. The writer puts a field that
  holds a comma, a double quote or a line break between double quotes, doubling the double
  quotes inside; the reader undoes it.
\<close>

definition csv_quote :: "string \<Rightarrow> string" where
  "csv_quote s =
     (if \<exists>c \<in> set s. c \<in> set [CHR '','', CHR 0x22, CHR 0x0A, CHR 0x0D]
      then [CHR 0x22] @ concat (map (\<lambda>c. if c = CHR 0x22 then [c, c] else [c]) s) @ [CHR 0x22]
      else s)"

fun csv_undouble :: "string \<Rightarrow> string" where
  "csv_undouble (a # b # cs) =
     (if a = CHR 0x22 \<and> b = CHR 0x22 then a # csv_undouble cs else a # csv_undouble (b # cs))"
| "csv_undouble cs = cs"

definition csv_unquote :: "string \<Rightarrow> string" where
  "csv_unquote s =
     (if 2 \<le> length s \<and> hd s = CHR 0x22 \<and> last s = CHR 0x22
      then csv_undouble (butlast (tl s)) else s)"

definition to_csv :: "string list list \<Rightarrow> string list" where
  "to_csv detected = ''detected'' # map (\<lambda>l. csv_quote (py_str_list l)) detected"

definition read_csv :: "string list \<Rightarrow> string list" where
  "read_csv file = map csv_unquote (tl file)"

definition reload_detected :: "string list \<Rightarrow> string list list" where
  "reload_detected file =
     map (\<lambda>l. map (\<lambda>e. re_sub_plus (\<lambda>c. \<not> ascii_letter c) [] e) (split_on (CHR '','') l))
       (read_csv file)"

section \<open>The functions on a store of list objects\<close>

text \<open>
  A Python list is a mutable object, and an argument is a reference to it. To say what a
  call leaves unchanged, the functions are modelled a second time on a store. The store
  holds the list objects by kind: the lists of strings, the lists of lists of strings (each
  element the address of a list of strings), and the lists of truth values that the
  comprehensions of \<^verbatim>\<open>precision\<close> and \<^verbatim>\<open>recall\<close> build. An address is the position of an object in
  its part of the store. Strings and numbers are immutable values. Every function takes
  the store and returns the store it leaves, with its result or the exception it raised.
\<close>

type_synonym addr = nat

record store =
  token_lists :: "string list list"
  row_lists :: "addr list list"
  flag_lists :: "bool list list"

text \<open>A new list object: the store grows at its end, and the address of the object is returned.\<close>

definition new_tokens :: "store \<Rightarrow> string list \<Rightarrow> store \<times> addr" where
  "new_tokens s ws = (s\<lparr>token_lists := token_lists s @ [ws]\<rparr>, length (token_lists s))"

definition new_flags :: "store \<Rightarrow> bool list \<Rightarrow> store \<times> addr" where
  "new_flags s bs = (s\<lparr>flag_lists := flag_lists s @ [bs]\<rparr>, length (flag_lists s))"

text \<open>The argument \<^verbatim>\<open>text\<close>: a string, or the address of a list of strings.\<close>

datatype text_arg = StrArg string | ListArg addr

text \<open>\<^verbatim>\<open>clean_word\<close>: its statements build strings only; no list is read or written.\<close>

definition clean_word_h :: "store \<Rightarrow> string \<Rightarrow> store \<times> string" where
  "clean_word_h s word =
     (let c_word = strip (lower word);
          c_word = re_sub_plus (\<lambda>c. \<not> ascii_letter c) [] c_word
      in if length c_word < 2 then (s, []) else (s, c_word))"

text \<open>\<^verbatim>\<open>[f(w) for w in items]\<close>: the calls run from left to right, each on the store the last left.\<close>

fun comprehend :: "(store \<Rightarrow> 'a \<Rightarrow> store \<times> 'b) \<Rightarrow> store \<Rightarrow> 'a list \<Rightarrow> store \<times> 'b list" where
  "comprehend f s [] = (s, [])"
| "comprehend f s (x # xs) =
     (let (s1, y) = f s x; (s2, ys) = comprehend f s1 xs in (s2, y # ys))"

text \<open>
  \<^verbatim>\<open>clean_text\<close>. Each comprehension, \<^verbatim>\<open>list(...)\<close> and \<^verbatim>\<open>sorted(...)\<close> builds a new list;
  \<open>set_iter\<close> gives the order in which the set of the elements of a list is iterated,
  which depends on the hash seed of the interpreter.
\<close>

definition clean_text_h ::
  "(string list \<Rightarrow> string list) \<Rightarrow> store \<Rightarrow> text_arg \<Rightarrow> bool \<Rightarrow> store \<times> (py_error + addr)" where
  "clean_text_h set_iter s text split =
     (let built =
        (if split = False then
           (let items = (case text of StrArg t \<Rightarrow> map (\<lambda>c. [c]) t | ListArg a \<Rightarrow> token_lists s ! a);
                (s1, ws) = comprehend clean_word_h s items
            in Inr (new_tokens s1 ws))
         else
           (case text of
              StrArg t \<Rightarrow>
                (let c_text = re_sub_one ascii_digit '' '' t;
                     c_text = re_sub_one punctuation_class '' '' c_text;
                     (s1, ws) = comprehend clean_word_h s (split_ws c_text)
                 in Inr (new_tokens s1 ws))
            | ListArg a \<Rightarrow> Inl TypeError))
      in case built of
           Inl e \<Rightarrow> (s, Inl e)
         | Inr (s2, c_text) \<Rightarrow>
             (let members = set_iter (token_lists s2 ! c_text);
                  (s3, listed) = new_tokens s2 (filter (\<lambda>w. w \<noteq> []) members);
                  (s4, c_text) = new_tokens s3 (sort (token_lists s3 ! listed))
              in (s4, Inr c_text)))"

text \<open>
  \<^verbatim>\<open>precision\<close>, \<^verbatim>\<open>recall\<close> and \<^verbatim>\<open>F1score\<close>. \<^verbatim>\<open>ing_lst[i]\<close> and \<^verbatim>\<open>ingredients[i]\<close> are
  addresses of lists of strings: \<^verbatim>\<open>detected_words\<close> and \<^verbatim>\<open>actual_ingredients\<close> alias the
  elements of the arguments.
\<close>

definition precision_h :: "store \<Rightarrow> addr \<Rightarrow> int \<Rightarrow> addr \<Rightarrow> store \<times> (py_error + rat)" where
  "precision_h s ing_lst i ingredients =
     (case py_index (row_lists s ! ing_lst) i of
        Inl e \<Rightarrow> (s, Inl e)
      | Inr detected_words \<Rightarrow>
          (case py_index (row_lists s ! ingredients) i of
             Inl e \<Rightarrow> (s, Inl e)
           | Inr actual_ingredients \<Rightarrow>
               if length (token_lists s ! detected_words) = 0 then (s, Inr 0)
               else
                 (let (s1, hits) =
                        new_flags s
                          (map (\<lambda>dw. dw \<in> set (token_lists s ! actual_ingredients))
                             (token_lists s ! detected_words));
                      tp = sum_list (map (\<lambda>b. if b then 1 else 0) (flag_lists s1 ! hits)) :: nat;
                      p = length (token_lists s1 ! detected_words)
                  in (s1, py_truediv (of_nat tp) (of_nat p)))))"

definition recall_h :: "store \<Rightarrow> addr \<Rightarrow> int \<Rightarrow> addr \<Rightarrow> store \<times> (py_error + rat)" where
  "recall_h s ing_lst i ingredients =
     (case py_index (row_lists s ! ing_lst) i of
        Inl e \<Rightarrow> (s, Inl e)
      | Inr detected_words \<Rightarrow>
          (case py_index (row_lists s ! ingredients) i of
             Inl e \<Rightarrow> (s, Inl e)
           | Inr actual_ingredients \<Rightarrow>
               if length (token_lists s ! detected_words) = 0 then (s, Inr 0)
               else
                 (let (s1, hits) =
                        new_flags s
                          (map (\<lambda>dw. dw \<in> set (token_lists s ! actual_ingredients))
                             (token_lists s ! detected_words));
                      tp = sum_list (map (\<lambda>b. if b then 1 else 0) (flag_lists s1 ! hits)) :: nat;
                      a = length (token_lists s1 ! actual_ingredients)
                  in (s1, py_truediv (of_nat tp) (of_nat a)))))"

definition F1score_h :: "store \<Rightarrow> addr \<Rightarrow> int \<Rightarrow> addr \<Rightarrow> store \<times> (py_error + rat)" where
  "F1score_h s ing_lst i ingredients =
     (case precision_h s ing_lst i ingredients of
        (s1, Inl e) \<Rightarrow> (s1, Inl e)
      | (s1, Inr p) \<Rightarrow>
          (case recall_h s1 ing_lst i ingredients of
             (s2, Inl e) \<Rightarrow> (s2, Inl e)
           | (s2, Inr r) \<Rightarrow>
               if p = 0 \<and> r = 0 then (s2, Inr 0)
               else (s2, py_truediv (2 * p * r) (p + r))))"

text \<open>
  What an argument denotes in a store: the list of token lists at an address, and the text
  of a \<open>text_arg\<close>; an address is well formed when it and the addresses it holds are
  addresses of the store.
\<close>

definition rows_of :: "store \<Rightarrow> addr \<Rightarrow> string list list" where
  "rows_of s r = map (\<lambda>a. token_lists s ! a) (row_lists s ! r)"

definition wf_rows :: "store \<Rightarrow> addr \<Rightarrow> bool" where
  "wf_rows s r \<longleftrightarrow>
     r < length (row_lists s) \<and> list_all (\<lambda>a. a < length (token_lists s)) (row_lists s ! r)"

fun text_of :: "store \<Rightarrow> text_arg \<Rightarrow> py_text" where
  "text_of s (StrArg t) = Str t"
| "text_of s (ListArg a) = StrList (token_lists s ! a)"

fun wf_text :: "store \<Rightarrow> text_arg \<Rightarrow> bool" where
  "wf_text s (StrArg t) = True"
| "wf_text s (ListArg a) = (a < length (token_lists s))"

text \<open>Every object of the store \<open>s\<close> is in \<open>s'\<close>, at its address and with its elements.\<close>

definition store_kept :: "store \<Rightarrow> store \<Rightarrow> bool" where
  "store_kept s s' \<longleftrightarrow>
     take (length (token_lists s)) (token_lists s') = token_lists s
     \<and> take (length (row_lists s)) (row_lists s') = row_lists s
     \<and> take (length (flag_lists s)) (flag_lists s') = flag_lists s"

text \<open>An iteration order of sets: each member of the list once, in some order.\<close>

definition set_iteration :: "(string list \<Rightarrow> string list) \<Rightarrow> bool" where
  "set_iteration set_iter \<longleftrightarrow> (\<forall>ws. distinct (set_iter ws) \<and> set (set_iter ws) = set ws)"

text \<open>The outcome of a run of \<open>clean_text_h\<close>: the exception, or the list at the address returned.\<close>

definition tokens_result :: "store \<times> (py_error + addr) \<Rightarrow> py_error + string list" where
  "tokens_result run =
     (case snd run of Inl e \<Rightarrow> Inl e | Inr a \<Rightarrow> Inr (token_lists (fst run) ! a))"

text \<open>Two stores that hold the same three lists of strings at different addresses.\<close>

definition example_store_a :: store where
  "example_store_a =
     \<lparr>token_lists = [[''Water,'', ''SUGAR'', ''water''], [''sugar'', ''salt''], [''salt'']],
      row_lists = [[0, 1], [1, 2]], flag_lists = []\<rparr>"

definition example_store_b :: store where
  "example_store_b =
     \<lparr>token_lists = [[''salt''], [''Water,'', ''SUGAR'', ''water''], [''sugar'', ''salt'']],
      row_lists = [[2, 0], [1, 2]], flag_lists = [[True]]\<rparr>"

section \<open>Properties of the scores\<close>

lemma true_positives_filter:
  "true_positives detected actual = length (filter (\<lambda>dw. dw \<in> set actual) detected)"
  unfolding true_positives_def by (induction detected) simp_all

lemma true_positives_le_detected: "true_positives detected actual \<le> length detected"
  by (simp add: true_positives_filter)

lemma true_positives_le_actual:
  assumes "distinct detected"
  shows "true_positives detected actual \<le> length actual"
proof -
  let ?hits = "filter (\<lambda>dw. dw \<in> set actual) detected"
  have "distinct ?hits" using assms by simp
  then have "length ?hits = card (set ?hits)" by (rule distinct_card [symmetric])
  also have "\<dots> \<le> card (set actual)" by (rule card_mono) auto
  also have "\<dots> \<le> length actual" by (rule card_length)
  finally show ?thesis by (simp add: true_positives_filter)
qed

lemma true_positives_self: "true_positives detected detected = length detected"
  by (simp add: true_positives_filter)

lemma precision_at:
  assumes "py_index ing_lst i = Inr detected" and "py_index ingredients i = Inr actual"
  shows "precision ing_lst i ingredients = Inr (precision_spec detected actual)"
  using assms
  by (simp add: precision_def precision_spec_def hit_count_spec_def py_truediv_def
      true_positives_filter)

lemma recall_at:
  assumes "py_index ing_lst i = Inr detected" and "py_index ingredients i = Inr actual"
    and "detected = [] \<or> actual \<noteq> []"
  shows "recall ing_lst i ingredients = Inr (recall_spec detected actual)"
  using assms
  by (auto simp: recall_def recall_spec_def hit_count_spec_def py_truediv_def
      true_positives_filter)

lemma recall_raises:
  assumes "py_index ing_lst i = Inr detected" and "py_index ingredients i = Inr actual"
    and "detected \<noteq> []" and "actual = []"
  shows "recall ing_lst i ingredients = Inl ZeroDivisionError"
  using assms by (simp add: recall_def py_truediv_def)


lemma recall_spec_nonneg: "0 \<le> recall_spec detected actual"
  by (simp add: recall_spec_def)







text \<open>
  Claim C2 says that \<open>recall\<close> returns a value between 0 and 1 for every argument. It
  returns 2 where a detected token that is an actual ingredient occurs twice, and it raises
  where a token was detected and the actual list is empty.
\<close>

theorem recall_unit_interval_counterexample:
  "recall [[''ab'', ''ab'']] 0 [[''ab'']] = Inr 2
   \<and> recall [['''']] 0 [[]] = Inl ZeroDivisionError"
  by (simp add: recall_def py_index_def true_positives_def py_truediv_def)

text \<open>
  Claim C2, amended. Let \<open>i\<close> index a detected list without duplicates and an actual
  list, the detected list empty or the actual list non-empty. Then \<open>recall\<close> returns a
  value between 0 and 1 inclusive.
\<close>

theorem recall_unit_interval:
  assumes "py_index ing_lst i = Inr detected" and "py_index ingredients i = Inr actual"
    and "distinct detected" and "detected = [] \<or> actual \<noteq> []"
  shows "\<exists>r. recall ing_lst i ingredients = Inr r \<and> 0 \<le> r \<and> r \<le> 1"
proof -
  have "recall_spec detected actual \<le> 1"
    using true_positives_le_actual [OF assms(3), of actual] assms(4)
    by (auto simp: recall_spec_def hit_count_spec_def true_positives_filter divide_le_eq_1)
  with recall_at [OF assms(1,2,4)] recall_spec_nonneg show ?thesis by simp
qed

theorem recall_unit_interval_witness:
  "py_index [[''ab'', ''cd'']] 0 = Inr [''ab'', ''cd'']
   \<and> py_index [[''ab'', ''xy'', ''zz'']] 0 = Inr [''ab'', ''xy'', ''zz'']
   \<and> distinct [''ab'', ''cd'']
   \<and> (\<exists>r. recall [[''ab'', ''cd'']] 0 [[''ab'', ''xy'', ''zz'']] = Inr r \<and> 0 \<le> r \<and> r \<le> 1)"
  using recall_unit_interval [of "[[''ab'', ''cd'']]" 0 "[''ab'', ''cd'']"
      "[[''ab'', ''xy'', ''zz'']]" "[''ab'', ''xy'', ''zz'']"]
  by (simp add: py_index_def)

text \<open>
  Claim C8. At an index where the detected list equals the actual list, and that list is
  non-empty and without duplicates, \<open>precision\<close>, \<open>recall\<close> and \<open>F1score\<close> all return
  exactly 1.
\<close>

theorem perfect_detection:
  assumes "py_index ing_lst i = Inr tokens" and "py_index ingredients i = Inr tokens"
    and "tokens \<noteq> []" and "distinct tokens"
  shows "precision ing_lst i ingredients = Inr 1 \<and> recall ing_lst i ingredients = Inr 1
       \<and> F1score ing_lst i ingredients = Inr 1"
proof -
  have p: "precision ing_lst i ingredients = Inr 1"
    using assms(1-3) by (simp add: precision_def py_truediv_def true_positives_self)
  have r: "recall ing_lst i ingredients = Inr 1"
    using assms(1-3) by (simp add: recall_def py_truediv_def true_positives_self)
  have "F1score ing_lst i ingredients = Inr 1"
    by (simp add: F1score_def p r py_truediv_def)
  with p r show ?thesis by simp
qed

theorem perfect_detection_witness:
  "py_index [[''salt'', ''water'']] 0 = Inr [''salt'', ''water'']
   \<and> distinct [''salt'', ''water'']
   \<and> precision [[''salt'', ''water'']] 0 [[''salt'', ''water'']] = Inr 1
   \<and> recall [[''salt'', ''water'']] 0 [[''salt'', ''water'']] = Inr 1
   \<and> F1score [[''salt'', ''water'']] 0 [[''salt'', ''water'']] = Inr 1"
  using perfect_detection [of "[[''salt'', ''water'']]" 0 "[''salt'', ''water'']"
      "[[''salt'', ''water'']]"]
  by (simp add: py_index_def)

section \<open>The formula of the F1 score\<close>

lemma rounding_round_1024: "rounding round_1024"
proof -
  have m: "mono round_1024"
  proof (rule monoI)
    fix x y :: rat assume "x \<le> y"
    then have "\<lfloor>x * 1024 + 1 / 2\<rfloor> \<le> \<lfloor>y * 1024 + 1 / 2\<rfloor>" by (intro floor_mono) simp
    then show "round_1024 x \<le> round_1024 y"
      by (simp add: round_1024_def divide_right_mono)
  qed
  have z: "round_1024 0 = 0" by code_simp
  have i: "round_1024 (round_1024 x) = round_1024 x" for x
  proof -
    define n where "n = \<lfloor>x * 1024 + 1 / 2\<rfloor>"
    have "\<lfloor>rat_of_int n + 1 / 2\<rfloor> = n" by linarith
    then show ?thesis by (simp add: round_1024_def n_def)
  qed
  from m z i show ?thesis by (simp add: rounding_def)
qed

lemma rounding_exact: "rounding (\<lambda>x. x)"
  by (simp add: rounding_def mono_def)

lemma rounded_nonneg:
  assumes "rounding rnd" and "0 \<le> x"
  shows "0 \<le> rnd x"
proof -
  from assms(1) have m: "mono rnd" and z: "rnd 0 = 0" by (simp_all only: rounding_def)
  from m assms(2) have "rnd 0 \<le> rnd x" by (rule monoD)
  then show ?thesis by (simp only: z)
qed

lemma rounded_again:
  assumes "rounding rnd"
  shows "rnd (rnd x) = rnd x"
  using assms by (simp only: rounding_def)

lemma rounded_sum_nonzero:
  assumes "rounding rnd" and "rnd p = p" and "rnd r = r" and "0 \<le> p" and "0 \<le> r"
    and "\<not> (p = 0 \<and> r = 0)"
  shows "rnd (p + r) \<noteq> 0"
proof -
  from assms(1) have m: "mono rnd" by (simp only: rounding_def)
  have "0 < rnd (p + r)"
  proof (cases "p = 0")
    case False
    with assms(4) have pos: "0 < p" by simp
    have "p \<le> p + r" using assms(5) by simp
    with m have "rnd p \<le> rnd (p + r)" by (rule monoD)
    then have "p \<le> rnd (p + r)" by (simp only: assms(2))
    with pos show ?thesis by (rule less_le_trans)
  next
    case True
    with assms(5,6) have pos: "0 < r" by simp
    have "r \<le> p + r" using assms(4) by simp
    with m have "rnd r \<le> rnd (p + r)" by (rule monoD)
    then have "r \<le> rnd (p + r)" by (simp only: assms(3))
    with pos show ?thesis by (rule less_le_trans)
  qed
  then show ?thesis by simp
qed

lemma precision_fl_spec_float:
  assumes "rounding rnd"
  shows "rnd (precision_fl_spec rnd detected actual) = precision_fl_spec rnd detected actual"
    and "0 \<le> precision_fl_spec rnd detected actual"
proof -
  from assms have z: "rnd 0 = 0" by (simp only: rounding_def)
  show "rnd (precision_fl_spec rnd detected actual) = precision_fl_spec rnd detected actual"
    by (cases "detected = []") (simp_all add: precision_fl_spec_def z rounded_again [OF assms])
  have "0 \<le> rnd (of_nat (hit_count_spec detected actual) / of_nat (length detected))"
    using assms by (rule rounded_nonneg) simp
  then show "0 \<le> precision_fl_spec rnd detected actual"
    by (simp add: precision_fl_spec_def)
qed

lemma recall_fl_spec_float:
  assumes "rounding rnd"
  shows "rnd (recall_fl_spec rnd detected actual) = recall_fl_spec rnd detected actual"
    and "0 \<le> recall_fl_spec rnd detected actual"
proof -
  from assms have z: "rnd 0 = 0" by (simp only: rounding_def)
  show "rnd (recall_fl_spec rnd detected actual) = recall_fl_spec rnd detected actual"
    by (cases "detected = []") (simp_all add: recall_fl_spec_def z rounded_again [OF assms])
  have "0 \<le> rnd (of_nat (hit_count_spec detected actual) / of_nat (length actual))"
    using assms by (rule rounded_nonneg) simp
  then show "0 \<le> recall_fl_spec rnd detected actual"
    by (simp add: recall_fl_spec_def)
qed

lemma precision_fl_at:
  assumes "py_index ing_lst i = Inr detected" and "py_index ingredients i = Inr actual"
  shows "precision_fl rnd ing_lst i ingredients = Inr (precision_fl_spec rnd detected actual)"
  using assms
  by (simp add: precision_fl_def precision_fl_spec_def hit_count_spec_def float_truediv_def
      true_positives_filter)

lemma recall_fl_at:
  assumes "py_index ing_lst i = Inr detected" and "py_index ingredients i = Inr actual"
    and "detected = [] \<or> actual \<noteq> []"
  shows "recall_fl rnd ing_lst i ingredients = Inr (recall_fl_spec rnd detected actual)"
  using assms
  by (auto simp: recall_fl_def recall_fl_spec_def hit_count_spec_def float_truediv_def
      true_positives_filter)

text \<open>
  Claim C1. Let \<open>i\<close> index a detected list in \<open>ing_lst\<close> and an actual list in
  \<open>ingredients\<close>, the detected list empty or the actual list non-empty. Then, in the
  arithmetic of floats, \<open>precision\<close> returns the count of detected tokens that occur in the
  actual list divided by the number of detected tokens, \<open>recall\<close> returns that count
  divided by the number of actual tokens, both 0 when no token was detected, and
  \<open>F1score\<close> returns \<open>2 * p * r / (p + r)\<close> of the two, and 0 when both are 0.
\<close>

theorem F1score_float_formula:
  assumes "rounding rnd"
    and "py_index ing_lst i = Inr detected" and "py_index ingredients i = Inr actual"
    and "detected = [] \<or> actual \<noteq> []"
  shows "precision_fl rnd ing_lst i ingredients = Inr (precision_fl_spec rnd detected actual)
       \<and> recall_fl rnd ing_lst i ingredients = Inr (recall_fl_spec rnd detected actual)
       \<and> F1score_fl rnd ing_lst i ingredients
           = Inr (F1_fl_spec rnd (precision_fl_spec rnd detected actual)
                    (recall_fl_spec rnd detected actual))"
proof -
  let ?p = "precision_fl_spec rnd detected actual"
  let ?r = "recall_fl_spec rnd detected actual"
  have p: "precision_fl rnd ing_lst i ingredients = Inr ?p"
    using assms(2,3) by (rule precision_fl_at)
  have r: "recall_fl rnd ing_lst i ingredients = Inr ?r"
    using assms(2,3,4) by (rule recall_fl_at)
  have f: "F1score_fl rnd ing_lst i ingredients = Inr (F1_fl_spec rnd ?p ?r)"
  proof (cases "?p = 0 \<and> ?r = 0")
    case True
    then show ?thesis by (simp add: F1score_fl_def F1_fl_spec_def p r)
  next
    case False
    have nz: "rnd (?p + ?r) \<noteq> 0"
      by (rule rounded_sum_nonzero [OF assms(1) precision_fl_spec_float(1) [OF assms(1)]
            recall_fl_spec_float(1) [OF assms(1)] precision_fl_spec_float(2) [OF assms(1)]
            recall_fl_spec_float(2) [OF assms(1)] False])
    have "F1score_fl rnd ing_lst i ingredients
        = float_truediv rnd (rnd (rnd (2 * ?p) * ?r)) (rnd (?p + ?r))"
      using False by (simp only: F1score_fl_def p r sum.case if_False)
    also have "\<dots> = Inr (rnd (rnd (rnd (2 * ?p) * ?r) / rnd (?p + ?r)))"
      using nz by (simp only: float_truediv_def if_False)
    also have "rnd (rnd (rnd (2 * ?p) * ?r) / rnd (?p + ?r)) = F1_fl_spec rnd ?p ?r"
      using False by (simp only: F1_fl_spec_def if_False)
    finally show ?thesis .
  qed
  from p r f show ?thesis by simp
qed

theorem F1score_float_formula_witness:
  "rounding round_1024
   \<and> py_index [[''ta'']] 0 = Inr [''ta'']
   \<and> py_index [[''ta'', ''ua'', ''ub'', ''uc'', ''ud'']] 0 = Inr [''ta'', ''ua'', ''ub'', ''uc'', ''ud'']
   \<and> precision_fl round_1024 [[''ta'']] 0 [[''ta'', ''ua'', ''ub'', ''uc'', ''ud'']] = Inr 1
   \<and> recall_fl round_1024 [[''ta'']] 0 [[''ta'', ''ua'', ''ub'', ''uc'', ''ud'']]
       = Inr (205 / 1024)
   \<and> F1score_fl round_1024 [[''ta'']] 0 [[''ta'', ''ua'', ''ub'', ''uc'', ''ud'']]
       = Inr (171 / 512)"
proof -
  have pr: "precision_fl_spec round_1024 [''ta''] [''ta'', ''ua'', ''ub'', ''uc'', ''ud''] = 1"
    by code_simp
  have re: "recall_fl_spec round_1024 [''ta''] [''ta'', ''ua'', ''ub'', ''uc'', ''ud'']
      = 205 / 1024"
    by code_simp
  have f1: "F1_fl_spec round_1024 1 (205 / 1024) = 171 / 512"
    by code_simp
  have a: "py_index [[''ta'']] 0 = Inr [''ta'']" by (simp add: py_index_def)
  have b: "py_index [[''ta'', ''ua'', ''ub'', ''uc'', ''ud'']] 0
      = Inr [''ta'', ''ua'', ''ub'', ''uc'', ''ud'']" by (simp add: py_index_def)
  from F1score_float_formula [OF rounding_round_1024 a b] rounding_round_1024 a b
  show ?thesis by (simp add: pr re f1)
qed

text \<open>With the rounding that changes nothing, these are the scores of the exact arithmetic.\<close>

lemma exact_truediv: "float_truediv (\<lambda>x. x) a b = py_truediv a b"
  by (simp add: float_truediv_def py_truediv_def)

lemma exact_precision:
  "precision_fl (\<lambda>x. x) ing_lst i ingredients = precision ing_lst i ingredients"
  by (simp only: precision_fl_def precision_def exact_truediv)

lemma exact_recall:
  "recall_fl (\<lambda>x. x) ing_lst i ingredients = recall ing_lst i ingredients"
  by (simp only: recall_fl_def recall_def exact_truediv)

lemma exact_F1score:
  "F1score_fl (\<lambda>x. x) ing_lst i ingredients = F1score ing_lst i ingredients"
  by (simp only: F1score_fl_def F1score_def exact_truediv exact_precision exact_recall)

section \<open>Properties of the cleaning\<close>

lemma filter_dropWhile_other:
  assumes "\<And>x. Q x \<Longrightarrow> \<not> P x"
  shows "filter P (dropWhile Q xs) = filter P xs"
  using assms by (induction xs) simp_all

lemma re_sub_plus_filter: "re_sub_plus cls [] s = filter (\<lambda>c. \<not> cls c) s"
proof (induction cls "[] :: string" s rule: re_sub_plus.induct)
  case (1 cls)
  show ?case by simp
next
  case (2 cls c cs)
  have "filter (\<lambda>c. \<not> cls c) (dropWhile cls cs) = filter (\<lambda>c. \<not> cls c) cs"
    by (rule filter_dropWhile_other) simp
  with 2 show ?case by simp
qed

lemma re_sub_one_map: "re_sub_one cls [r] s = map (\<lambda>c. if cls c then r else c) s"
  by (induction s) simp_all

lemma ascii_letter_code:
  "ascii_letter c \<longleftrightarrow>
     (97 \<le> (of_char c :: nat) \<and> (of_char c :: nat) \<le> 122)
     \<or> (65 \<le> (of_char c :: nat) \<and> (of_char c :: nat) \<le> 90)"
  by (simp add: ascii_letter_def less_eq_char_def)

lemma lowercase_letter_code:
  "lowercase_letter c \<longleftrightarrow> 97 \<le> (of_char c :: nat) \<and> (of_char c :: nat) \<le> 122"
  by (simp add: lowercase_letter_def less_eq_char_def)

lemma space_not_letter: "py_isspace c \<Longrightarrow> \<not> ascii_letter c"
  unfolding py_isspace_def ascii_letter_code Let_def by arith

lemma of_char_lower_char:
  "(of_char (lower_char c) :: nat) =
     (if (65 \<le> (of_char c :: nat) \<and> (of_char c :: nat) \<le> 90)
         \<or> (192 \<le> (of_char c :: nat) \<and> (of_char c :: nat) \<le> 222 \<and> (of_char c :: nat) \<noteq> 215)
      then of_char c + 32 else of_char c)"
proof -
  define n where "n = (of_char c :: nat)"
  define up where "up \<longleftrightarrow> (65 \<le> n \<and> n \<le> 90) \<or> (192 \<le> n \<and> n \<le> 222 \<and> n \<noteq> 215)"
  have lc: "lower_char c = (if up then char_of (n + 32) else c)"
    by (simp add: lower_char_def Let_def n_def up_def)
  have "(of_char (lower_char c) :: nat) = (if up then n + 32 else n)"
  proof (cases up)
    case True
    then have "n + 32 < 256" unfolding up_def by arith
    then have "(n + 32) mod 256 = n + 32" by simp
    with True lc show ?thesis by simp
  next
    case False
    with lc show ?thesis by (simp add: n_def)
  qed
  then show ?thesis by (simp only: n_def up_def)
qed

lemma lower_char_letter:
  assumes "ascii_letter (lower_char c)"
  shows "lowercase_letter (lower_char c)"
proof -
  define n where "n = (of_char c :: nat)"
  define m where "m = (of_char (lower_char c) :: nat)"
  have m: "m = (if (65 \<le> n \<and> n \<le> 90) \<or> (192 \<le> n \<and> n \<le> 222 \<and> n \<noteq> 215) then n + 32 else n)"
    unfolding m_def n_def by (rule of_char_lower_char)
  from assms have "(97 \<le> m \<and> m \<le> 122) \<or> (65 \<le> m \<and> m \<le> 90)"
    by (simp only: ascii_letter_code m_def)
  with m have "97 \<le> m \<and> m \<le> 122"
    by (cases "(65 \<le> n \<and> n \<le> 90) \<or> (192 \<le> n \<and> n \<le> 222 \<and> n \<noteq> 215)") (simp_all, arith+)
  then show ?thesis by (simp only: lowercase_letter_code m_def)
qed

lemma filter_letter_strip: "filter ascii_letter (strip s) = filter ascii_letter s"
proof -
  have "filter ascii_letter (strip s)
      = rev (filter ascii_letter (dropWhile py_isspace (rev (dropWhile py_isspace s))))"
    by (simp add: strip_def rev_filter)
  also have "\<dots> = rev (filter ascii_letter (rev (dropWhile py_isspace s)))"
    by (simp add: filter_dropWhile_other space_not_letter)
  also have "\<dots> = filter ascii_letter (dropWhile py_isspace s)"
    by (simp add: rev_filter)
  also have "\<dots> = filter ascii_letter s"
    by (simp add: filter_dropWhile_other space_not_letter)
  finally show ?thesis .
qed

lemma clean_word_kept:
  "clean_word w =
     (if length (filter ascii_letter (lower w)) < 2 then [] else filter ascii_letter (lower w))"
  by (simp add: clean_word_def re_sub_plus_filter filter_letter_strip Let_def)

text \<open>
  Claim C5. For every string \<open>w\<close>, \<open>clean_word w\<close> is \<open>w\<close> lowercased with every
  character that is not an ASCII letter removed, and the empty string whenever that leaves
  fewer than 2 characters.
\<close>

theorem clean_word_refines_spec: "clean_word w = clean_word_spec w"
  by (simp add: clean_word_kept clean_word_spec_def Let_def)

lemma clean_word_shape:
  "clean_word w = [] \<or>
   (2 \<le> length (clean_word w) \<and> (\<forall>c \<in> set (clean_word w). lowercase_letter c))"
  by (auto simp: clean_word_kept lower_def lower_char_letter)

lemma unique_sorted_props:
  "sorted_wrt (<) (unique_sorted ws) \<and> distinct (unique_sorted ws)
   \<and> set (unique_sorted ws) = set ws - {[]}"
proof -
  have fin: "finite (Set.filter (\<lambda>w. w \<noteq> []) (set ws))" by simp
  have "set (unique_sorted ws) = Set.filter (\<lambda>w. w \<noteq> []) (set ws)"
    unfolding unique_sorted_def using fin by (rule set_sorted_list_of_set)
  then have "set (unique_sorted ws) = set ws - {[]}" by auto
  then show ?thesis by (simp add: unique_sorted_def)
qed

lemma unique_sorted_spec: "unique_sorted ws = distinct_sorted_spec ws"
proof -
  have "Set.filter (\<lambda>w. w \<noteq> []) (set ws) = set (filter (\<lambda>w. w \<noteq> []) ws)" by auto
  then have "unique_sorted ws = sorted_list_of_set (set (filter (\<lambda>w. w \<noteq> []) ws))"
    by (simp only: unique_sorted_def)
  also have "\<dots> = sort (remdups (filter (\<lambda>w. w \<noteq> []) ws))"
    by (rule sorted_list_of_set_sort_remdups)
  finally show ?thesis by (simp only: distinct_sorted_spec_def)
qed

lemma clean_text_tokens:
  assumes "clean_text text split = Inr toks"
  obtains ws where "toks = unique_sorted (map clean_word ws)"
proof (cases "text")
  case (Str s)
  show ?thesis
  proof (cases "split")
    case True
    with Str assms that show ?thesis by (auto simp: clean_text_def Let_def)
  next
    case False
    with Str assms have "toks = unique_sorted (map clean_word (map (\<lambda>c. [c]) s))"
      by (auto simp: clean_text_def comp_def)
    with that show ?thesis .
  qed
next
  case (StrList ws)
  with assms that show ?thesis by (auto simp: clean_text_def split: if_splits)
qed

text \<open>
  Claim C7. Every list that \<open>clean_text\<close> returns, for either value of \<open>split\<close>, is
  strictly ascending, has no duplicates, and each of its elements has at least 2
  characters, all of them lowercase ASCII letters.
\<close>

theorem clean_text_result_shape:
  assumes "clean_text text split = Inr toks"
  shows "sorted_wrt (<) toks \<and> distinct toks
       \<and> (\<forall>w \<in> set toks. 2 \<le> length w \<and> (\<forall>c \<in> set w. lowercase_letter c))"
proof -
  from assms obtain ws where toks: "toks = unique_sorted (map clean_word ws)"
    by (rule clean_text_tokens)
  have "2 \<le> length w \<and> (\<forall>c \<in> set w. lowercase_letter c)" if "w \<in> set toks" for w
  proof -
    from that toks have "w \<in> set (map clean_word ws) - {[]}"
      using unique_sorted_props [of "map clean_word ws"] by simp
    then obtain v where "w = clean_word v" and "w \<noteq> []"
      by auto
    with clean_word_shape [of v] show ?thesis by simp
  qed
  with toks unique_sorted_props [of "map clean_word ws"] show ?thesis by simp
qed

theorem clean_text_result_shape_witness:
  "clean_text (Str ''Water, Sugar 12% (lemon juice), a b water'') True
     = Inr [''juice'', ''lemon'', ''sugar'', ''water'']
   \<and> sorted_wrt (<) [''juice'', ''lemon'', ''sugar'', ''water'']
   \<and> distinct [''juice'', ''lemon'', ''sugar'', ''water'']
   \<and> list_all (\<lambda>w. 2 \<le> length w \<and> list_all lowercase_letter w)
         [''juice'', ''lemon'', ''sugar'', ''water'']"
proof -
  have run: "clean_text (Str ''Water, Sugar 12% (lemon juice), a b water'') True
     = Inr [''juice'', ''lemon'', ''sugar'', ''water'']"
    by code_simp
  from clean_text_result_shape [OF run] run show ?thesis
    by (simp only: list_all_iff) simp
qed

lemma clean_text_list: "clean_text (StrList ws) False = Inr (clean_text_list_spec ws)"
  by (simp add: clean_text_def clean_text_list_spec_def unique_sorted_spec)

text \<open>
  The two halves of claim C6 on the code. With \<open>split\<close> false, a list of strings is
  cleaned as the specification says (\<open>clean_text_list\<close>). With \<open>split\<close> true, the class of
  the pattern holds the punctuation characters but the backslash, and a text without a
  backslash is cleaned as the specification says.
\<close>

lemma char_of_code:
  assumes "(of_char c :: nat) = of_char d"
  shows "c = d"
  using assms by (simp only: of_char_eq_iff)

lemma char_in_range:
  assumes "CHR 0x2C \<le> c" and "c \<le> CHR 0x2E"
  shows "c = CHR 0x2C \<or> c = CHR 0x2D \<or> c = CHR 0x2E"
proof -
  define n where "n = (of_char c :: nat)"
  from assms have "44 \<le> n" and "n \<le> 46" by (simp_all add: less_eq_char_def n_def)
  then consider "n = 44" | "n = 45" | "n = 46" by arith
  then show ?thesis
  proof cases
    case 1
    then have "(of_char c :: nat) = of_char (CHR 0x2C)" by (simp add: n_def)
    then have "c = CHR 0x2C" by (rule char_of_code)
    then show ?thesis by simp
  next
    case 2
    then have "(of_char c :: nat) = of_char (CHR 0x2D)" by (simp add: n_def)
    then have "c = CHR 0x2D" by (rule char_of_code)
    then show ?thesis by simp
  next
    case 3
    then have "(of_char c :: nat) = of_char (CHR 0x2E)" by (simp add: n_def)
    then have "c = CHR 0x2E" by (rule char_of_code)
    then show ?thesis by simp
  qed
qed

lemma comma_to_stop:
  "(CHR 0x2C \<le> c \<and> c \<le> CHR 0x2E) = (c = CHR 0x2C \<or> c = CHR 0x2D \<or> c = CHR 0x2E)"
proof
  assume "CHR 0x2C \<le> c \<and> c \<le> CHR 0x2E"
  then show "c = CHR 0x2C \<or> c = CHR 0x2D \<or> c = CHR 0x2E" by (simp add: char_in_range)
next
  assume "c = CHR 0x2C \<or> c = CHR 0x2D \<or> c = CHR 0x2E"
  then show "CHR 0x2C \<le> c \<and> c \<le> CHR 0x2E"
    by (elim disjE) (simp_all add: less_eq_char_def)
qed


lemma punctuation_class_members:
  "punctuation_class c \<longleftrightarrow>
     c \<in> set [CHR 0x21, CHR 0x22, CHR 0x23, CHR 0x24, CHR 0x25, CHR 0x26, CHR 0x27, CHR 0x28,
      CHR 0x29, CHR 0x2A, CHR 0x2B, CHR 0x2C, CHR 0x2D, CHR 0x2E, CHR 0x2F, CHR 0x3A,
      CHR 0x3B, CHR 0x3C, CHR 0x3D, CHR 0x3E, CHR 0x3F, CHR 0x40, CHR 0x5B,
      CHR 0x5D, CHR 0x5E, CHR 0x5F, CHR 0x60, CHR 0x7B, CHR 0x7C, CHR 0x7D, CHR 0x7E]"
  unfolding punctuation_class_def comma_to_stop
  by (simp only: list.set insert_iff empty_iff simp_thms disj_assoc)

lemma string_punctuation_members:
  "c \<in> set string_punctuation \<longleftrightarrow> punctuation_class c \<or> c = CHR 0x5C"
  unfolding punctuation_class_members string_punctuation_def
  by (simp only: list.set insert_iff empty_iff simp_thms disj_ac)


lemma space_not_punctuation: "\<not> punctuation_class (CHR '' '')"
  by (simp add: punctuation_class_members)

lemma spaced_no_backslash:
  assumes "CHR 0x5C \<notin> set s"
  shows "re_sub_one punctuation_class '' '' (re_sub_one ascii_digit '' '' s) = spaced_spec s"
proof -
  have "re_sub_one punctuation_class '' '' (re_sub_one ascii_digit '' '' s)
      = map (\<lambda>c. if punctuation_class (if ascii_digit c then CHR '' '' else c) then CHR '' ''
                  else (if ascii_digit c then CHR '' '' else c)) s"
    by (simp add: re_sub_one_map comp_def)
  also have "\<dots> = spaced_spec s"
    unfolding spaced_spec_def
  proof (rule map_cong)
    fix c assume "c \<in> set s"
    with assms have "c \<noteq> CHR 0x5C" by blast
    then have "c \<in> set string_punctuation \<longleftrightarrow> punctuation_class c"
      by (simp only: string_punctuation_members simp_thms)
    then show "(if punctuation_class (if ascii_digit c then CHR '' '' else c) then CHR '' ''
                else (if ascii_digit c then CHR '' '' else c))
             = (if ascii_digit c \<or> c \<in> set string_punctuation then CHR '' '' else c)"
      by (cases "ascii_digit c") (simp_all only: if_True if_False space_not_punctuation simp_thms)
  qed (rule refl)
  finally show ?thesis .
qed

lemma clean_text_split_no_backslash:
  assumes "CHR 0x5C \<notin> set s"
  shows "clean_text (Str s) True = Inr (clean_text_split_spec s)"
  using spaced_no_backslash [OF assms]
  by (simp add: clean_text_def clean_text_split_spec_def unique_sorted_spec Let_def)

text \<open>
  Claim C6, at the text \<^verbatim>\<open>ab\cd\<close>. The specification replaces every punctuation
  character by a space and so separates \<^verbatim>\<open>ab\<close> from \<^verbatim>\<open>cd\<close>; the pattern of
  \<open>clean_text\<close> does not match the backslash, which \<open>clean_word\<close> then deletes, and
  the two halves come out as one token.
\<close>

theorem clean_text_backslash:
  "clean_text (Str [CHR ''a'', CHR ''b'', CHR 0x5C, CHR ''c'', CHR ''d'']) True = Inr [''abcd'']
   \<and> clean_text_split_spec [CHR ''a'', CHR ''b'', CHR 0x5C, CHR ''c'', CHR ''d''] = [''ab'', ''cd'']"
  by code_simp

section \<open>Properties of the CSV cache\<close>

text \<open>
  What reloading gives for saved lists whose tokens are made of letters, as every cleaned
  token is: each non-empty list comes back as it was saved, and each empty list comes back
  as the list of one empty string.
\<close>

lemma csv_undouble_doubled:
  "csv_undouble (concat (map (\<lambda>c. if c = CHR 0x22 then [c, c] else [c]) s)) = s"
proof (induction s)
  case Nil
  show ?case by simp
next
  case (Cons c cs)
  show ?case
  proof (cases "c = CHR 0x22")
    case True
    with Cons show ?thesis by simp
  next
    case False
    with Cons show ?thesis
      by (cases "concat (map (\<lambda>c. if c = CHR 0x22 then [c, c] else [c]) cs)") simp_all
  qed
qed

lemma csv_unquote_quote: "csv_unquote (csv_quote s) = s"
proof (cases "\<exists>c \<in> set s. c \<in> set [CHR '','', CHR 0x22, CHR 0x0A, CHR 0x0D]")
  case True
  then show ?thesis
    by (simp add: csv_quote_def csv_unquote_def csv_undouble_doubled butlast_append
        del: set_simps list.set)
next
  case False
  then have plain: "csv_quote s = s" by (simp add: csv_quote_def del: list.set)
  from False have "CHR 0x22 \<notin> set s" by auto
  then have "\<not> (2 \<le> length s \<and> hd s = CHR 0x22)"
    by (cases s) auto
  with plain show ?thesis by (auto simp: csv_unquote_def)
qed

lemma read_csv_to_csv: "read_csv (to_csv detected) = map py_str_list detected"
  by (simp add: read_csv_def to_csv_def csv_unquote_quote comp_def)

lemma split_on_from_last:
  "d \<notin> set xs \<Longrightarrow> split_on_from d cur xs = [cur @ xs]"
  by (induction xs arbitrary: cur) auto

lemma split_on_from_piece:
  "d \<notin> set xs \<Longrightarrow> split_on_from d cur (xs @ d # rest) = (cur @ xs) # split_on_from d [] rest"
  by (induction xs arbitrary: cur) auto


lemma quote_not_letter: "\<not> ascii_letter (CHR 0x27)" "\<not> ascii_letter (CHR '' '')"
  "\<not> ascii_letter (CHR ''['')" "\<not> ascii_letter (CHR '']'')" "\<not> ascii_letter (CHR '','')"
  by (simp_all add: ascii_letter_def)

lemma letters_no_comma:
  assumes "\<forall>c \<in> set w. ascii_letter c"
  shows "CHR '','' \<notin> set (py_repr w)"
  using assms quote_not_letter by (auto simp: py_repr_def)

lemma letters_repr:
  assumes "\<forall>c \<in> set w. ascii_letter c"
  shows "filter ascii_letter (py_repr w) = w"
  using assms by (simp add: py_repr_def quote_not_letter)

lemma reload_pieces:
  assumes "\<forall>w \<in> set (t # ts). \<forall>c \<in> set w. ascii_letter c"
    and "filter ascii_letter cur = []" and "CHR '','' \<notin> set cur"
  shows "map (filter ascii_letter)
           (split_on_from (CHR '','') cur (join_comma_space (map py_repr (t # ts)) @ '']''))
         = t # ts"
  using assms
proof (induction ts arbitrary: t cur)
  case Nil
  then have "CHR '','' \<notin> set (py_repr t @ '']'')"
    using letters_no_comma [of t] by simp
  then have "split_on_from (CHR '','') cur (py_repr t @ '']'') = [cur @ py_repr t @ '']'']"
    by (rule split_on_from_last)
  with Nil show ?case by (simp add: letters_repr quote_not_letter)
next
  case (Cons u us)
  have t: "\<forall>c \<in> set t. ascii_letter c" using Cons.prems(1) by simp
  have rest: "\<forall>w \<in> set (u # us). \<forall>c \<in> set w. ascii_letter c" using Cons.prems(1) by simp
  have shape: "join_comma_space (map py_repr (t # u # us)) @ '']''
      = py_repr t @ CHR '','' # ('' '' @ join_comma_space (map py_repr (u # us)) @ '']'')"
    by simp
  define pieces where
    "pieces = split_on_from (CHR '','') '' '' (join_comma_space (map py_repr (u # us)) @ '']'')"
  have "split_on_from (CHR '','') cur
          (py_repr t @ CHR '','' # ('' '' @ join_comma_space (map py_repr (u # us)) @ '']''))
      = (cur @ py_repr t)
        # split_on_from (CHR '','') [] ('' '' @ join_comma_space (map py_repr (u # us)) @ '']'')"
    using letters_no_comma [OF t] by (rule split_on_from_piece)
  also have "split_on_from (CHR '','') [] ('' '' @ join_comma_space (map py_repr (u # us)) @ '']'')
      = pieces"
    by (simp add: pieces_def)
  finally have split:
    "split_on_from (CHR '','') cur (join_comma_space (map py_repr (t # u # us)) @ '']'')
      = (cur @ py_repr t) # pieces"
    by (simp only: shape)
  have ih: "map (filter ascii_letter) pieces = u # us"
    unfolding pieces_def by (rule Cons.IH [OF rest]) (simp_all add: quote_not_letter)
  show ?case
    unfolding split using ih Cons.prems(2) letters_repr [OF t] by simp
qed

lemma reload_cell:
  assumes "\<forall>w \<in> set toks. \<forall>c \<in> set w. ascii_letter c"
  shows "map (\<lambda>e. re_sub_plus (\<lambda>c. \<not> ascii_letter c) [] e) (split_on (CHR '','') (py_str_list toks))
         = (if toks = [] then [[]] else toks)"
proof (cases toks)
  case Nil
  then show ?thesis
    by (simp add: split_on_def py_str_list_def re_sub_plus_filter quote_not_letter)
next
  case (Cons t ts)
  have "split_on (CHR '','') (py_str_list (t # ts))
      = split_on_from (CHR '','') ''['' (join_comma_space (map py_repr (t # ts)) @ '']'')"
    by (simp add: split_on_def py_str_list_def)
  with reload_pieces [of t ts "''[''"] assms Cons show ?thesis
    by (simp add: re_sub_plus_filter quote_not_letter)
qed

lemma reload_saved:
  assumes "\<forall>toks \<in> set detected. \<forall>w \<in> set toks. \<forall>c \<in> set w. ascii_letter c"
  shows "reload_detected (to_csv detected)
         = map (\<lambda>toks. if toks = [] then [[]] else toks) detected"
  using assms by (simp add: reload_detected_def read_csv_to_csv reload_cell)

text \<open>
  Claim C3, at an image without detected tokens. The cleaned list is empty, the file
  stores \<^verbatim>\<open>[]\<close>, and reloading splits that cell into one piece, which the removal of
  the non-letters turns into the empty string: the reloaded list holds one empty token
  where the saved list held none.
\<close>

theorem reload_empty_detection:
  "clean_text (StrList []) False = Inr []
   \<and> reload_detected (to_csv [[''salt'', ''water''], []]) = [[''salt'', ''water''], ['''']]"
  by code_simp

section \<open>Properties of the selection of the best detections\<close>

lemma py_index_nat: "i < length xs \<Longrightarrow> py_index xs (int i) = Inr (xs ! i)"
  by (simp add: py_index_def)

lemma py_gather_in_range:
  assumes "\<forall>i \<in> set inds. i < length xs"
  shows "py_gather xs inds = Inr (map (\<lambda>i. xs ! i) inds)"
  using assms by (induction inds) (simp_all add: py_index_nat)

lemma is_argsort_perm:
  assumes "is_argsort v inds"
  shows "length inds = length v" and "distinct inds" and "set inds = {0..<length v}"
proof -
  from assms have m: "mset inds = mset [0..<length v]" by (simp only: is_argsort_def)
  from mset_eq_length [OF m] show "length inds = length v" by simp
  from mset_eq_imp_distinct_iff [OF m] show "distinct inds" by simp
  from mset_eq_setD [OF m] show "set inds = {0..<length v}" by simp
qed

lemma is_argsort_split:
  assumes "is_argsort v inds"
  shows "sorted_wrt (\<lambda>i j. v ! i \<le> v ! j) (take k inds)"
    and "\<forall>i \<in> set (take k inds). \<forall>j \<in> set (drop k inds). v ! i \<le> v ! j"
proof -
  from assms have "sorted_wrt (\<lambda>i j. v ! i \<le> v ! j) inds"
    by (simp add: is_argsort_def sorted_wrt_map)
  then have "sorted_wrt (\<lambda>i j. v ! i \<le> v ! j) (take k inds @ drop k inds)" by simp
  then show "sorted_wrt (\<lambda>i j. v ! i \<le> v ! j) (take k inds)"
    and "\<forall>i \<in> set (take k inds). \<forall>j \<in> set (drop k inds). v ! i \<le> v ! j"
    unfolding sorted_wrt_append by simp_all
qed

text \<open>
  Claim C9. Given at least 210 scores, an image and an actual ingredient list at every
  index of a score, and an \<open>argsort\<close> whose result on the negated scores is a permutation
  of their indices along which they ascend, \<open>top210\<close> returns two lists of length 210:
  the images and the actual ingredient lists at 210 distinct indices \<open>inds\<close>, whose
  scores descend along \<open>inds\<close> and are at least the score of every index left out.
\<close>

theorem top210_best:
  assumes "210 \<le> length scores"
    and "length scores \<le> length imgs" and "length scores \<le> length ingredients"
    and "is_argsort (map uminus scores) (argsort (map uminus scores))"
  shows "\<exists>inds imgs210 a_ings.
           top210 argsort imgs ingredients scores = Inr (imgs210, a_ings)
         \<and> length imgs210 = 210 \<and> length a_ings = 210
         \<and> imgs210 = map (\<lambda>i. imgs ! i) inds \<and> a_ings = map (\<lambda>i. ingredients ! i) inds
         \<and> distinct inds \<and> (\<forall>i \<in> set inds. i < length scores)
         \<and> sorted_wrt (\<ge>) (map (\<lambda>i. scores ! i) inds)
         \<and> (\<forall>j < length scores. j \<notin> set inds \<longrightarrow> (\<forall>i \<in> set inds. scores ! j \<le> scores ! i))"
proof -
  define v where "v = map uminus scores"
  define all_inds where "all_inds = argsort v"
  define inds where "inds = take 210 all_inds"
  have arg: "is_argsort v all_inds" using assms(4) by (simp add: v_def all_inds_def)
  have len_v: "length v = length scores" by (simp add: v_def)
  have len_all: "length all_inds = length scores"
    using is_argsort_perm(1) [OF arg] len_v by simp
  have dist_all: "distinct all_inds" by (rule is_argsort_perm(2) [OF arg])
  have set_all: "set all_inds = {0..<length scores}"
    using is_argsort_perm(3) [OF arg] len_v by simp
  have len: "length inds = 210" using assms(1) len_all by (simp add: inds_def)
  have dist: "distinct inds" using dist_all by (simp add: inds_def)
  have range: "\<forall>i \<in> set inds. i < length scores"
  proof
    fix i assume "i \<in> set inds"
    then have "i \<in> set all_inds" unfolding inds_def by (rule in_set_takeD)
    with set_all show "i < length scores" by simp
  qed
  have v_nth: "v ! i = - (scores ! i)" if "i < length scores" for i
    using that by (simp add: v_def)
  have desc: "sorted_wrt (\<ge>) (map (\<lambda>i. scores ! i) inds)"
  proof -
    have "sorted_wrt (\<lambda>i j. v ! i \<le> v ! j) inds"
      unfolding inds_def by (rule is_argsort_split(1) [OF arg])
    then have "sorted_wrt (\<lambda>i j. scores ! i \<ge> scores ! j) inds"
    proof (rule sorted_wrt_mono_rel [rotated])
      fix i j assume "i \<in> set inds" "j \<in> set inds" "v ! i \<le> v ! j"
      with range v_nth show "scores ! i \<ge> scores ! j" by simp
    qed
    then show ?thesis by (simp add: sorted_wrt_map)
  qed
  have best: "\<forall>j < length scores. j \<notin> set inds \<longrightarrow> (\<forall>i \<in> set inds. scores ! j \<le> scores ! i)"
  proof (intro allI impI ballI)
    fix j i assume j: "j < length scores" "j \<notin> set inds" and i: "i \<in> set inds"
    from j(1) set_all have "j \<in> set (take 210 all_inds @ drop 210 all_inds)" by simp
    with j(2) have "j \<in> set (drop 210 all_inds)" unfolding inds_def set_append by blast
    with is_argsort_split(2) [OF arg, of 210] i have "v ! i \<le> v ! j"
      unfolding inds_def by blast
    with v_nth [OF j(1)] v_nth range i show "scores ! j \<le> scores ! i" by simp
  qed
  have g1: "py_gather imgs inds = Inr (map (\<lambda>i. imgs ! i) inds)"
    using range assms(2) by (intro py_gather_in_range) auto
  have g2: "py_gather ingredients inds = Inr (map (\<lambda>i. ingredients ! i) inds)"
    using range assms(3) by (intro py_gather_in_range) auto
  have g3: "py_gather scores inds = Inr (map (\<lambda>i. scores ! i) inds)"
    using range by (intro py_gather_in_range) auto
  have run: "top210 argsort imgs ingredients scores
      = Inr (map (\<lambda>i. imgs ! i) inds, map (\<lambda>i. ingredients ! i) inds)"
    using g1 g2 g3 by (simp add: top210_def Let_def inds_def all_inds_def v_def)
  from run len dist range desc best show ?thesis by auto
qed

lemma sorted_is_argsort: "sorted v \<Longrightarrow> is_argsort v [0..<length v]"
  by (simp only: is_argsort_def map_nth)

lemma sorted_uminus_rev:
  fixes xs :: "rat list"
  assumes "sorted xs"
  shows "sorted (map uminus (rev xs))"
proof -
  from assms have "sorted_wrt (\<lambda>x y. - y \<le> - x) xs" by simp
  then have "sorted_wrt (\<lambda>x y. - x \<le> - y) (rev xs)" by (simp only: sorted_wrt_rev)
  then show ?thesis by (simp only: sorted_wrt_map)
qed

lemma sorted_of_nat_upt: "sorted (map rat_of_nat [0..<n])"
  by (simp add: sorted_map sorted_wrt_iff_nth_less)

theorem top210_best_witness:
  "210 \<le> length (rev (map rat_of_nat [0..<250]))
   \<and> is_argsort (map uminus (rev (map rat_of_nat [0..<250])))
        [0..<length (map uminus (rev (map rat_of_nat [0..<250])))]
   \<and> (\<exists>inds imgs210 a_ings.
         top210 (\<lambda>v. [0..<length v]) [0..<250] (replicate 250 [''salt''])
           (rev (map rat_of_nat [0..<250])) = Inr (imgs210, a_ings)
         \<and> length imgs210 = 210 \<and> length a_ings = 210
         \<and> imgs210 = map (\<lambda>i. [0..<250] ! i) inds
         \<and> a_ings = map (\<lambda>i. replicate 250 [''salt''] ! i) inds
         \<and> distinct inds \<and> (\<forall>i \<in> set inds. i < length (rev (map rat_of_nat [0..<250])))
         \<and> sorted_wrt (\<ge>) (map (\<lambda>i. rev (map rat_of_nat [0..<250]) ! i) inds)
         \<and> (\<forall>j < length (rev (map rat_of_nat [0..<250])). j \<notin> set inds \<longrightarrow>
               (\<forall>i \<in> set inds. rev (map rat_of_nat [0..<250]) ! j
                                    \<le> rev (map rat_of_nat [0..<250]) ! i)))"
proof -
  let ?scores = "rev (map rat_of_nat [0..<250])"
  have l: "210 \<le> length ?scores" by simp
  have a: "is_argsort (map uminus ?scores) [0..<length (map uminus ?scores)]"
    by (intro sorted_is_argsort sorted_uminus_rev sorted_of_nat_upt)
  have i: "length ?scores \<le> length [0..<250]" by simp
  have g: "length ?scores \<le> length (replicate 250 [''salt''])" by simp
  from top210_best [of ?scores "[0..<250]" "replicate 250 [''salt'']" "\<lambda>v. [0..<length v]",
      OF l i g a] l a
  show ?thesis by blast
qed

section \<open>Determinism and the absence of side effects\<close>

lemma comprehend_clean_word: "comprehend clean_word_h s ws = (s, map clean_word ws)"
  by (induction ws) (simp_all add: clean_word_h_def clean_word_def Let_def)

lemma clean_word_h_pure: "clean_word_h s w = (s, clean_word w)"
  by (simp add: clean_word_h_def clean_word_def Let_def)

lemma sort_iteration:
  assumes "set_iteration set_iter"
  shows "sort (filter (\<lambda>w. w \<noteq> []) (set_iter ws)) = unique_sorted ws"
proof -
  from assms have d: "distinct (set_iter ws)" and s: "set (set_iter ws) = set ws"
    by (simp_all add: set_iteration_def)
  let ?kept = "filter (\<lambda>w. w \<noteq> []) (set_iter ws)"
  have "Set.filter (\<lambda>w. w \<noteq> []) (set ws) = set ?kept" using s by auto
  then have "unique_sorted ws = sorted_list_of_set (set ?kept)"
    by (simp only: unique_sorted_def)
  also have "\<dots> = sort (remdups ?kept)" by (rule sorted_list_of_set_sort_remdups)
  also have "remdups ?kept = ?kept" using d by (simp add: distinct_remdups_id)
  finally show ?thesis by simp
qed

lemma py_index_map:
  "py_index (map f xs) i = (case py_index xs i of Inl e \<Rightarrow> Inl e | Inr x \<Rightarrow> Inr (f x))"
  by (auto simp: py_index_def nat_less_iff)

lemma flags_count:
  "sum_list (map ((\<lambda>b. if b then 1 else 0) \<circ> (\<lambda>dw. dw \<in> set actual)) detected)
     = true_positives detected actual"
  by (simp add: true_positives_def comp_def)

lemma precision_h_run:
  "snd (precision_h s il i ig) = precision (rows_of s il) i (rows_of s ig)"
  "store_kept s (fst (precision_h s il i ig))"
  "token_lists (fst (precision_h s il i ig)) = token_lists s"
  "row_lists (fst (precision_h s il i ig)) = row_lists s"
  by (auto simp: precision_h_def precision_def rows_of_def py_index_map new_flags_def
      flags_count store_kept_def Let_def split: sum.splits)

lemma recall_h_run:
  "snd (recall_h s il i ig) = recall (rows_of s il) i (rows_of s ig)"
  "store_kept s (fst (recall_h s il i ig))"
  "token_lists (fst (recall_h s il i ig)) = token_lists s"
  "row_lists (fst (recall_h s il i ig)) = row_lists s"
  by (auto simp: recall_h_def recall_def rows_of_def py_index_map new_flags_def
      flags_count store_kept_def Let_def split: sum.splits)



lemma take_take_prefix:
  fixes xs ys zs :: "'a list"
  assumes "take (length xs) ys = xs" and "take (length ys) zs = ys"
  shows "take (length xs) zs = xs"
proof -
  have "length (take (length xs) ys) = length xs" by (simp only: assms(1))
  then have le: "length xs \<le> length ys" by simp
  have "take (length xs) zs = take (length xs) (take (length ys) zs)"
    using le by (simp add: min_def)
  also have "\<dots> = take (length xs) ys" by (simp only: assms(2))
  also have "\<dots> = xs" by (rule assms(1))
  finally show ?thesis .
qed

lemma store_kept_trans:
  assumes "store_kept s s'" and "store_kept s' s''"
  shows "store_kept s s''"
proof -
  from assms have "take (length (token_lists s)) (token_lists s'') = token_lists s"
    unfolding store_kept_def by (blast intro: take_take_prefix)
  moreover from assms have "take (length (row_lists s)) (row_lists s'') = row_lists s"
    unfolding store_kept_def by (blast intro: take_take_prefix)
  moreover from assms have "take (length (flag_lists s)) (flag_lists s'') = flag_lists s"
    unfolding store_kept_def by (blast intro: take_take_prefix)
  ultimately show ?thesis by (simp only: store_kept_def)
qed

lemma F1score_h_run:
  "snd (F1score_h s il i ig) = F1score (rows_of s il) i (rows_of s ig)"
  "store_kept s (fst (F1score_h s il i ig))"
proof -
  obtain s1 p where p: "precision_h s il i ig = (s1, p)" by (cases "precision_h s il i ig")
  obtain s2 r where r: "recall_h s1 il i ig = (s2, r)" by (cases "recall_h s1 il i ig")
  from precision_h_run [of s il i ig] p
  have p_val: "p = precision (rows_of s il) i (rows_of s ig)" and k1: "store_kept s s1"
    and same: "token_lists s1 = token_lists s" "row_lists s1 = row_lists s"
    by simp_all
  from same have rows: "rows_of s1 il = rows_of s il" "rows_of s1 ig = rows_of s ig"
    by (simp_all add: rows_of_def)
  from recall_h_run [of s1 il i ig] r rows
  have r_val: "r = recall (rows_of s il) i (rows_of s ig)" and k2: "store_kept s1 s2"
    by simp_all
  have k: "store_kept s s2" using k1 k2 by (rule store_kept_trans)
  have fst_run: "fst (F1score_h s il i ig) = (case p of Inl e \<Rightarrow> s1 | Inr x \<Rightarrow> s2)"
    using p r by (simp add: F1score_h_def split: sum.splits)
  show "snd (F1score_h s il i ig) = F1score (rows_of s il) i (rows_of s ig)"
    using p r p_val r_val by (simp add: F1score_h_def F1score_def split: sum.splits)
  show "store_kept s (fst (F1score_h s il i ig))"
    using fst_run k1 k by (simp split: sum.splits)
qed

lemma nth_third_fresh: "(xs @ [a, b, c]) ! Suc (Suc (length xs)) = c"
  by (simp add: nth_append)

lemma clean_text_h_value:
  assumes "set_iteration set_iter"
  shows "tokens_result (clean_text_h set_iter s t split) = clean_text (text_of s t) split"
proof (cases t)
  case (StrArg x)
  show ?thesis
  proof (cases "split")
    case True
    with StrArg show ?thesis
      by (simp add: clean_text_h_def clean_text_def tokens_result_def comprehend_clean_word
          new_tokens_def Let_def sort_iteration [OF assms] nth_third_fresh)
  next
    case False
    with StrArg show ?thesis
      by (simp add: clean_text_h_def clean_text_def tokens_result_def comprehend_clean_word
          new_tokens_def Let_def sort_iteration [OF assms] nth_third_fresh comp_def)
  qed
next
  case (ListArg a)
  show ?thesis
  proof (cases "split")
    case True
    with ListArg show ?thesis
      by (simp add: clean_text_h_def clean_text_def tokens_result_def)
  next
    case False
    with ListArg show ?thesis
      by (simp add: clean_text_h_def clean_text_def tokens_result_def comprehend_clean_word
          new_tokens_def Let_def sort_iteration [OF assms] nth_third_fresh)
  qed
qed

lemma clean_text_h_kept: "store_kept s (fst (clean_text_h set_iter s t split))"
  by (cases t; cases "split")
     (simp_all add: clean_text_h_def comprehend_clean_word new_tokens_def Let_def
        store_kept_def)

text \<open>
  Claim C10. Take two evaluations: each has its own store and its own iteration order of
  sets, and the arguments of the one denote the same values as the arguments of the other.
  Then \<open>clean_word\<close>, \<open>clean_text\<close>, \<open>precision\<close>, \<open>recall\<close> and \<open>F1score\<close> give
  equal results in both, and each leaves every list object of its store as it was:
  \<open>clean_word\<close> leaves the store itself, the others only add new lists to it.
\<close>

theorem batch_functions_deterministic:
  assumes "set_iteration iter1" and "set_iteration iter2"
    and "wf_text s1 t1" and "wf_text s2 t2" and "text_of s1 t1 = text_of s2 t2"
    and "wf_rows s1 il1" and "wf_rows s2 il2" and "rows_of s1 il1 = rows_of s2 il2"
    and "wf_rows s1 ig1" and "wf_rows s2 ig2" and "rows_of s1 ig1 = rows_of s2 ig2"
  shows "snd (clean_word_h s1 w) = snd (clean_word_h s2 w) \<and> fst (clean_word_h s1 w) = s1
       \<and> tokens_result (clean_text_h iter1 s1 t1 split)
           = tokens_result (clean_text_h iter2 s2 t2 split)
       \<and> store_kept s1 (fst (clean_text_h iter1 s1 t1 split))
       \<and> snd (precision_h s1 il1 i ig1) = snd (precision_h s2 il2 i ig2)
       \<and> store_kept s1 (fst (precision_h s1 il1 i ig1))
       \<and> snd (recall_h s1 il1 i ig1) = snd (recall_h s2 il2 i ig2)
       \<and> store_kept s1 (fst (recall_h s1 il1 i ig1))
       \<and> snd (F1score_h s1 il1 i ig1) = snd (F1score_h s2 il2 i ig2)
       \<and> store_kept s1 (fst (F1score_h s1 il1 i ig1))"
  using assms
  by (simp add: clean_word_h_pure clean_text_h_value clean_text_h_kept precision_h_run
      recall_h_run F1score_h_run)

lemma set_iteration_remdups: "set_iteration remdups"
  by (simp add: set_iteration_def)

lemma set_iteration_rev_remdups: "set_iteration (\<lambda>ws. rev (remdups ws))"
  by (simp add: set_iteration_def)

theorem batch_functions_deterministic_witness:
  "set_iteration remdups \<and> set_iteration (\<lambda>ws. rev (remdups ws))
   \<and> wf_text example_store_a (ListArg 0) \<and> wf_text example_store_b (ListArg 1)
   \<and> text_of example_store_a (ListArg 0) = text_of example_store_b (ListArg 1)
   \<and> wf_rows example_store_a 0 \<and> wf_rows example_store_b 1
   \<and> rows_of example_store_a 0 = rows_of example_store_b 1
   \<and> wf_rows example_store_a 1 \<and> wf_rows example_store_b 0
   \<and> rows_of example_store_a 1 = rows_of example_store_b 0
   \<and> tokens_result (clean_text_h remdups example_store_a (ListArg 0) False)
       = tokens_result (clean_text_h (\<lambda>ws. rev (remdups ws)) example_store_b (ListArg 1) False)
   \<and> store_kept example_store_a (fst (clean_text_h remdups example_store_a (ListArg 0) False))
   \<and> snd (F1score_h example_store_a 0 1 1) = snd (F1score_h example_store_b 1 1 0)
   \<and> store_kept example_store_a (fst (F1score_h example_store_a 0 1 1))"
proof -
  have t: "wf_text example_store_a (ListArg 0)" "wf_text example_store_b (ListArg 1)"
    "text_of example_store_a (ListArg 0) = text_of example_store_b (ListArg 1)"
    by (simp_all add: example_store_a_def example_store_b_def)
  have r: "wf_rows example_store_a 0" "wf_rows example_store_b 1"
    "rows_of example_store_a 0 = rows_of example_store_b 1"
    by (simp_all add: example_store_a_def example_store_b_def wf_rows_def rows_of_def)
  have g: "wf_rows example_store_a 1" "wf_rows example_store_b 0"
    "rows_of example_store_a 1 = rows_of example_store_b 0"
    by (simp_all add: example_store_a_def example_store_b_def wf_rows_def rows_of_def)
  from batch_functions_deterministic [OF set_iteration_remdups set_iteration_rev_remdups
      t r g, of "''Salt''" False 1]
    set_iteration_remdups set_iteration_rev_remdups t r g
  show ?thesis by simp
qed

end
